theory Spec2Isabelle
  imports Complex_Main
begin

section \<open>Python strings and integers used by \<open>nilmtk/datastore.py\<close>\<close>

text \<open>
  The module works on Python \<open>str\<close> values (here \<open>string\<close>, a list of characters) and on
  unbounded Python integers (here \<open>int\<close>).  The string methods it calls are written out:
  \<open>s.strip('/')\<close>, \<open>s.split('/')\<close>, \<open>s.startswith(p)\<close>, \<open>s.replace(p, "")\<close>, \<open>str(i)\<close> and
  \<open>"{:d}".format(i)\<close> for an integer \<open>i\<close>, and \<open>int(s)\<close>.
\<close>

definition slash :: char where
  "slash = CHR ''/''"

text \<open>\<open>s.strip('/')\<close>: every leading and every trailing \<open>/\<close> is removed.\<close>

definition strip_slash :: "string \<Rightarrow> string" where
  "strip_slash s = rev (dropWhile (\<lambda>c. c = slash) (rev (dropWhile (\<lambda>c. c = slash) s)))"

text \<open>
  \<open>s.split('/')\<close>: the pieces between the slashes, empty pieces included; the result has
  at least one element (\<open>''.split('/') == ['']\<close>).
\<close>

fun split_slash :: "string \<Rightarrow> string list" where
  "split_slash [] = [[]]"
| "split_slash (c # cs) =
     (if c = slash then [] # split_slash cs
      else (case split_slash cs of
              [] \<Rightarrow> [[c]]
            | w # ws \<Rightarrow> (c # w) # ws))"

definition startswith :: "string \<Rightarrow> string \<Rightarrow> bool" where
  "startswith s p = (take (length p) s = p)"

text \<open>
  \<open>s.replace(p, "")\<close> for a non-empty \<open>p\<close>: every occurrence of \<open>p\<close>, found from the left
  and not overlapping, is deleted.
\<close>

function replace_empty :: "string \<Rightarrow> string \<Rightarrow> string" where
  "replace_empty p s =
     (if p = [] \<or> s = [] then s
      else if take (length p) s = p then replace_empty p (drop (length p) s)
      else hd s # replace_empty p (tl s))"
  by pat_completeness auto
termination
  by (relation "measure (\<lambda>(p, s). length s)") auto

declare replace_empty.simps [simp del]

text \<open>Decimal rendering: \<open>str(i)\<close> and \<open>"{:d}".format(i)\<close> agree on integers.\<close>

definition digit_char :: "nat \<Rightarrow> char" where
  "digit_char d = ''0123456789'' ! d"

function str_nat :: "nat \<Rightarrow> string" where
  "str_nat n = (if n < 10 then [digit_char n] else str_nat (n div 10) @ [digit_char (n mod 10)])"
  by pat_completeness auto
termination
  by (relation "measure (\<lambda>n. n)") auto

declare str_nat.simps [simp del]

definition str_int :: "int \<Rightarrow> string" where
  "str_int i = (if i < 0 then CHR ''-'' # str_nat (nat (- i)) else str_nat (nat i))"

text \<open>
  \<open>int(s)\<close> on a \<open>str\<close>: surrounding ASCII white space is dropped, then an optional sign and
  a non-empty run of decimal digits must remain; anything else raises \<open>ValueError\<close>
  (\<open>None\<close> here).
\<close>

definition is_digit :: "char \<Rightarrow> bool" where
  "is_digit c = (c \<in> set ''0123456789'')"

definition digit_val :: "char \<Rightarrow> nat" where
  "digit_val c = length (takeWhile (\<lambda>d. d \<noteq> c) ''0123456789'')"

definition is_space :: "char \<Rightarrow> bool" where
  "is_space c = (c \<in> set [CHR '' '', CHR 0x09, CHR 0x0A, CHR 0x0B, CHR 0x0C, CHR 0x0D])"

definition strip_space :: "string \<Rightarrow> string" where
  "strip_space s = rev (dropWhile is_space (rev (dropWhile is_space s)))"

definition nat_of_digits :: "string \<Rightarrow> nat" where
  "nat_of_digits ds = foldl (\<lambda>acc c. 10 * acc + digit_val c) 0 ds"

definition digits_to_int :: "string \<Rightarrow> int option" where
  "digits_to_int ds =
     (if ds \<noteq> [] \<and> list_all is_digit ds then Some (int (nat_of_digits ds)) else None)"

definition py_int :: "string \<Rightarrow> int option" where
  "py_int s =
     (case strip_space s of
        [] \<Rightarrow> None
      | c # cs \<Rightarrow>
          if c = CHR ''-'' then map_option uminus (digits_to_int cs)
          else if c = CHR ''+'' then digits_to_int cs
          else digits_to_int (c # cs))"

section \<open>Errors\<close>

text \<open>
  Every \<open>raise\<close> and every failing \<open>assert\<close> of the module is a value of \<open>error\<close>.  An
  \<open>AssertionError\<close> and a \<open>ValueError\<close> carry the place that raised them, since the messages
  of the source are not modelled:
  \<^item> \<open>First_element\<close>: \<open>assert split[0].startswith('building')\<close>;
  \<^item> \<open>Building_int\<close>: the \<open>ValueError\<close> raised for \<open>int(split[0].replace("building", ""))\<close>;
  \<^item> \<open>Meter_prefix\<close>: \<open>assert split[2].startswith('meter')\<close>;
  \<^item> \<open>Meter_int\<close>: the \<open>ValueError\<close> of \<open>int(split[-1].replace("meter", ""))\<close>;
  \<^item> \<open>Check_building_int\<close>, \<open>Check_building_ge_1\<close>, \<open>Check_meter_ge_1\<close>: the asserts of
    \<open>Key._check\<close> (\<open>assert isinstance(self.meter, int)\<close> cannot fail on an \<open>int option\<close>);
  \<^item> \<open>Storer_not_none\<close>: \<open>assert storer is not None\<close> in \<open>_get_storer\<close>.
  \<open>KeyError\<close> carries the key that was not found, \<open>KeyError_columns\<close> the column list of
  the message of \<open>_check_columns\<close>.
  \<open>MemoryError\<close> carries the number its message prints, the estimate in megabytes
  (\<open>mem_requirement / 1E6\<close>, here as an exact rational; the source prints it with three
  decimals).
\<close>

datatype raise_site =
    First_element
  | Building_int
  | Meter_prefix
  | Meter_int
  | Check_building_int
  | Check_building_ge_1
  | Check_meter_ge_1
  | Storer_not_none

datatype error =
    IndexError
  | StopIteration
  | KeyError string
  | KeyError_columns "string list"
  | MemoryError rat
  | AssertionError raise_site
  | ValueError raise_site

section \<open>\<open>join_key\<close>\<close>

text \<open>An argument of \<open>join_key\<close> is a string or an integer; \<open>str(arg)\<close> renders it.\<close>

datatype segment = Seg_str string | Seg_int int

fun str :: "segment \<Rightarrow> string" where
  "str (Seg_str s) = s"
| "str (Seg_int i) = str_int i"

text \<open>The \<open>for\<close> loop of \<open>join_key\<close>, with the accumulator \<open>key\<close>.\<close>

fun join_key_loop :: "string \<Rightarrow> segment list \<Rightarrow> string" where
  "join_key_loop key [] = key"
| "join_key_loop key (arg # args) =
     (let arg_stripped = strip_slash (str arg)
      in join_key_loop (if arg_stripped \<noteq> [] then key @ arg_stripped @ [slash] else key) args)"

definition join_key :: "segment list \<Rightarrow> string" where
  "join_key args =
     (let key = join_key_loop [slash] args
      in if length key > 1 then butlast key else key)"

text \<open>
  The description of the result in the specification's words: a slash, followed by the
  non-empty stripped segments with a slash between neighbours.
\<close>

fun intercalate_slash :: "string list \<Rightarrow> string" where
  "intercalate_slash [] = []"
| "intercalate_slash [s] = s"
| "intercalate_slash (s # t # ts) = s @ slash # intercalate_slash (t # ts)"

definition join_spec :: "segment list \<Rightarrow> string" where
  "join_spec args =
     slash # intercalate_slash (filter (\<lambda>s. s \<noteq> []) (map (\<lambda>a. strip_slash (str a)) args))"

section \<open>\<open>Key\<close>\<close>

record Key =
  building :: "int option"
  meter :: "int option"
  utility :: "string option"

definition Key_check :: "Key \<Rightarrow> error + unit" where
  "Key_check k =
     (case building k of
        None \<Rightarrow> Inl (AssertionError Check_building_int)
      | Some b \<Rightarrow>
          if \<not> b \<ge> 1 then Inl (AssertionError Check_building_ge_1)
          else (case meter k of
                  None \<Rightarrow> Inr ()
                | Some m \<Rightarrow> if \<not> m \<ge> 1 then Inl (AssertionError Check_meter_ge_1) else Inr ()))"

text \<open>
  The \<open>else\<close> branch of \<open>Key.__init__\<close>, up to the call of \<open>_check\<close>: the fields read from
  the string.
\<close>

definition Key_parse_fields :: "string \<Rightarrow> error + Key" where
  "Key_parse_fields string =
     (let split = split_slash (strip_slash string) in
      if \<not> startswith (split ! 0) ''building'' then Inl (AssertionError First_element)
      else (case py_int (replace_empty ''building'' (split ! 0)) of
              None \<Rightarrow> Inl (ValueError Building_int)
            | Some b \<Rightarrow>
                let u = (if length split > 1 then Some (split ! 1) else None) in
                if length split = 3 then
                  (if \<not> startswith (split ! 2) ''meter'' then Inl (AssertionError Meter_prefix)
                   else (case py_int (replace_empty ''meter'' (last split)) of
                           None \<Rightarrow> Inl (ValueError Meter_int)
                         | Some m \<Rightarrow> Inr \<lparr>building = Some b, meter = Some m, utility = u\<rparr>))
                else Inr \<lparr>building = Some b, meter = None, utility = u\<rparr>))"

definition Key_init :: "string option \<Rightarrow> int option \<Rightarrow> int option \<Rightarrow> error + Key" where
  "Key_init string b m =
     (case (case string of
              None \<Rightarrow> Inr \<lparr>building = b, meter = m, utility = None\<rparr>
            | Some s \<Rightarrow> Key_parse_fields s) of
        Inl e \<Rightarrow> Inl e
      | Inr k \<Rightarrow> (case Key_check k of Inl e \<Rightarrow> Inl e | Inr _ \<Rightarrow> Inr k))"

definition Key_repr :: "Key \<Rightarrow> error + string" where
  "Key_repr k =
     (case Key_check k of
        Inl e \<Rightarrow> Inl e
      | Inr _ \<Rightarrow>
          let s = ''/building'' @ str_int (the (building k)) in
          Inr (case meter k of
                 None \<Rightarrow> s
               | Some m \<Rightarrow> s @ ''/elec/meter'' @ str_int m))"

section \<open>Time intervals\<close>

text \<open>
  \<open>nilmtk/timeframe.py\<close> (the class \<open>TimeFrame\<close>) is not among the sources.  The
  specification describes it as a half-open time interval, possibly unbounded or empty,
  with an intersection, an emptiness test and a query predicate.  A time stamp is an
  integer (a number of time units since the epoch).
\<close>

text \<open>
  Modelled from the spec: the type \<open>TimeFrame\<close>, a start and an end, each of which may be
  absent (no bound on that side), and the flag \<open>empty\<close>.
\<close>

record TimeFrame =
  tf_start :: "int option"
  tf_end :: "int option"
  tf_empty :: bool

text \<open>
  Modelled from the spec: the constructor \<open>TimeFrame(start, end)\<close>, the interval between two
  bounds.
\<close>

definition TimeFrame_new :: "int option \<Rightarrow> int option \<Rightarrow> TimeFrame" where
  "TimeFrame_new s e = \<lparr>tf_start = s, tf_end = e, tf_empty = False\<rparr>"

text \<open>
  Modelled from the spec: \<open>TimeFrame()\<close>, the interval without bounds.  \<open>load\<close> uses it
  as the single period that stands for the entire range when no period is given (the
  specification's "single unbounded period"), and \<open>DataStore.__init__\<close> as the window that
  restricts nothing.
\<close>

definition TimeFrame_default :: TimeFrame where
  "TimeFrame_default = TimeFrame_new None None"

text \<open>Modelled from the spec: the empty interval, the result of an empty intersection.\<close>

definition TimeFrame_none :: TimeFrame where
  "TimeFrame_none = \<lparr>tf_start = None, tf_end = None, tf_empty = True\<rparr>"

text \<open>
  Modelled from the spec: the time stamps of a half-open interval, from the start, up to
  but without the end; an empty interval holds none.
\<close>

definition in_timeframe :: "TimeFrame \<Rightarrow> int \<Rightarrow> bool" where
  "in_timeframe tf t =
     (\<not> tf_empty tf
      \<and> (case tf_start tf of None \<Rightarrow> True | Some s \<Rightarrow> s \<le> t)
      \<and> (case tf_end tf of None \<Rightarrow> True | Some e \<Rightarrow> t < e))"

text \<open>
  Modelled from the spec: \<open>TimeFrame.intersect\<close>.  The later start and the earlier end,
  where an absent bound gives way to a present one; the intersection is empty when one of
  the two intervals is, or when the start reaches the end.
\<close>

definition later_start :: "int option \<Rightarrow> int option \<Rightarrow> int option" where
  "later_start a b =
     (case a of None \<Rightarrow> b | Some x \<Rightarrow> (case b of None \<Rightarrow> Some x | Some y \<Rightarrow> Some (max x y)))"

definition earlier_end :: "int option \<Rightarrow> int option \<Rightarrow> int option" where
  "earlier_end a b =
     (case a of None \<Rightarrow> b | Some x \<Rightarrow> (case b of None \<Rightarrow> Some x | Some y \<Rightarrow> Some (min x y)))"

definition intersect :: "TimeFrame \<Rightarrow> TimeFrame \<Rightarrow> TimeFrame" where
  "intersect a b =
     (if tf_empty a \<or> tf_empty b then TimeFrame_none
      else
        let s = later_start (tf_start a) (tf_start b);
            e = earlier_end (tf_end a) (tf_end b)
        in (case s of
              None \<Rightarrow> TimeFrame_new s e
            | Some x \<Rightarrow>
                (case e of
                   None \<Rightarrow> TimeFrame_new s e
                 | Some y \<Rightarrow> if x \<ge> y then TimeFrame_none else TimeFrame_new s e)))"

text \<open>
  A query predicate is a list of terms on the row index, all of which must hold; the empty
  list selects every row.  \<open>load\<close> itself builds the term \<open>index > data.index[-1]\<close>.
\<close>

datatype query_term = Index_ge int | Index_lt int | Index_gt int

fun holds :: "query_term \<Rightarrow> int \<Rightarrow> bool" where
  "holds (Index_ge s) t = (s \<le> t)"
| "holds (Index_lt e) t = (t < e)"
| "holds (Index_gt x) t = (x < t)"

text \<open>
  Modelled from the spec: \<open>TimeFrame.query_terms\<close>, the query predicate of an interval:
  the terms \<open>index >= start\<close> and \<open>index < end\<close> for the bounds that are set.
\<close>

definition query_terms :: "TimeFrame \<Rightarrow> query_term list" where
  "query_terms tf =
     (case tf_start tf of None \<Rightarrow> [] | Some s \<Rightarrow> [Index_ge s])
     @ (case tf_end tf of None \<Rightarrow> [] | Some e \<Rightarrow> [Index_lt e])"

section \<open>The storage engine\<close>

text \<open>
  The storage engine (\<open>pd.HDFStore\<close>) is an external collaborator, described in the
  specification by the interface the module consumes.
\<close>

text \<open>
  Modelled from the spec: the store.  It maps a path to a node; a node carries a column
  schema and its rows in their order on disk; a row is its index (a time stamp) and its
  cells by column name.
\<close>

type_synonym 'v row = "int \<times> (string \<times> 'v) list"

record 'v node =
  col_names :: "string list"
  table_rows :: "'v row list"

record 'v HDFStore =
  nodes :: "(string \<times> 'v node) list"
  is_open :: bool

text \<open>Modelled from the spec: a read restricted to \<open>cols\<close> keeps the cells of these columns.\<close>

definition project :: "string list option \<Rightarrow> 'v row \<Rightarrow> 'v row" where
  "project cols r =
     (case cols of
        None \<Rightarrow> r
      | Some cs \<Rightarrow> (fst r, filter (\<lambda>cell. fst cell \<in> set cs) (snd r)))"

text \<open>Modelled from the spec: a row satisfies a predicate when its index satisfies every term.\<close>

definition satisfies :: "query_term list \<Rightarrow> 'v row \<Rightarrow> bool" where
  "satisfies terms r = list_all (\<lambda>t. holds t (fst r)) terms"

text \<open>
  Modelled from the spec: the engine's iterator, the list of the groups it yields, each of
  at most \<open>chunksize\<close> rows, in the order of the rows.  The specification leaves a chunk
  size below 1 open: the engine's iterator steps through the rows by the chunk size, so
  with rows to deliver and a chunk size of 0 it never yields and never ends, which is the
  value \<open>None\<close>.
\<close>

function chunks_of :: "nat \<Rightarrow> 'a list \<Rightarrow> 'a list list" where
  "chunks_of n xs =
     (if n = 0 \<or> xs = [] then [] else take n xs # chunks_of n (drop n xs))"
  by pat_completeness auto
termination
  by (relation "measure (\<lambda>(n, xs). length xs)") auto

declare chunks_of.simps [simp del]

definition table_iterator :: "nat \<Rightarrow> 'a list \<Rightarrow> 'a list list option" where
  "table_iterator chunksize xs =
     (if xs = [] then Some []
      else if chunksize = 0 then None
      else Some (chunks_of chunksize xs))"

text \<open>
  Modelled from the spec: \<open>select(key, cols, where, chunksize)\<close>, the rows that satisfy the
  terms, restricted to the columns, as an iterator of groups.  A path that names no node
  raises \<open>KeyError\<close>.
\<close>

definition select_where ::
  "'v HDFStore \<Rightarrow> string \<Rightarrow> string list option \<Rightarrow> query_term list \<Rightarrow> nat
    \<Rightarrow> error + 'v row list list option" where
  "select_where st key cols terms chunksize =
     (case map_of (nodes st) key of
        None \<Rightarrow> Inl (KeyError key)
      | Some n \<Rightarrow>
          Inr (table_iterator chunksize
                 (map (project cols) (filter (satisfies terms) (table_rows n)))))"

text \<open>
  Modelled from the spec: \<open>select_as_coordinates(key, where)\<close>, the positions of the rows
  that satisfy the terms, in ascending order.
\<close>

definition select_as_coordinates ::
  "'v HDFStore \<Rightarrow> string \<Rightarrow> query_term list \<Rightarrow> error + nat list" where
  "select_as_coordinates st key terms =
     (case map_of (nodes st) key of
        None \<Rightarrow> Inl (KeyError key)
      | Some n \<Rightarrow>
          Inr (filter (\<lambda>i. satisfies terms (table_rows n ! i)) [0 ..< length (table_rows n)]))"

text \<open>
  Modelled from the spec: \<open>select(key, cols, start, chunksize)\<close>, the rows from an absolute
  position on, as an iterator of groups.
\<close>

definition select_start ::
  "'v HDFStore \<Rightarrow> string \<Rightarrow> string list option \<Rightarrow> nat \<Rightarrow> nat
    \<Rightarrow> error + 'v row list list option" where
  "select_start st key cols start chunksize =
     (case map_of (nodes st) key of
        None \<Rightarrow> Inl (KeyError key)
      | Some n \<Rightarrow>
          Inr (table_iterator chunksize (map (project cols) (drop start (table_rows n)))))"

text \<open>
  Modelled from the spec: \<open>close()\<close> releases the handle.  The specification does not say
  what a read on a released handle does, and the reads above do not look at \<open>is_open\<close>.
\<close>

definition HDFStore_close :: "'v HDFStore \<Rightarrow> 'v HDFStore" where
  "HDFStore_close st = st\<lparr>is_open := False\<rparr>"

section \<open>\<open>HDFDataStore\<close>\<close>

record 'v HDFDataStore =
  store :: "'v HDFStore"
  window :: TimeFrame

text \<open>
  A chunk is the \<open>DataFrame\<close> that \<open>load\<close> yields, with the two attributes \<open>load\<close> attaches.
\<close>

record 'v chunk =
  rows :: "'v row list"
  look_ahead :: "'v row list"
  timeframe :: TimeFrame

text \<open>
  \<open>load\<close> is a generator.  Its run is the list of the chunks it yields and the way it ends:
  the periods are exhausted, an exception leaves the generator, or it waits for an iterator
  of the engine that never yields.
\<close>

datatype ending = Exhausted | Raised error | Never_returns

text \<open>
  The body of \<open>for data in generator\<close>: the look-ahead and the time frame of one group of
  rows.  \<open>next\<close> on an iterator without a group raises \<open>StopIteration\<close>.
\<close>

definition load_look_ahead ::
  "'v HDFStore \<Rightarrow> string \<Rightarrow> string list option \<Rightarrow> nat \<Rightarrow> 'v row list \<Rightarrow> ending + 'v row list" where
  "load_look_ahead st key cols n_look_ahead_rows data =
     (case (if length data > 0
            then select_as_coordinates st key [Index_gt (fst (last data))]
            else Inr []) of
        Inl e \<Rightarrow> Inl (Raised e)
      | Inr look_ahead_coords \<Rightarrow>
          if length look_ahead_coords > 0 then
            (let look_ahead_start = look_ahead_coords ! 0 in
             case select_start st key cols look_ahead_start n_look_ahead_rows of
               Inl e \<Rightarrow> Inl (Raised e)
             | Inr None \<Rightarrow> Inl Never_returns
             | Inr (Some []) \<Rightarrow> Inl (Raised StopIteration)
             | Inr (Some (g # gs)) \<Rightarrow> Inr g)
          else Inr [])"

text \<open>
  \<open>data.timeframe\<close>: \<open>TimeFrame(data.index[0], data.index[-1])\<close> for a group with rows,
  \<open>TimeFrame()\<close> for one without.
\<close>

definition load_timeframe :: "'v row list \<Rightarrow> TimeFrame" where
  "load_timeframe data =
     (if length data > 0
      then TimeFrame_new (Some (fst (hd data))) (Some (fst (last data)))
      else TimeFrame_default)"

text \<open>
  The loop \<open>for data in generator\<close>: each group is yielded as a chunk with its two
  attributes; an exception, or an iterator that never yields, ends the run after the chunks
  yielded so far.
\<close>

fun load_groups ::
  "'v HDFStore \<Rightarrow> string \<Rightarrow> string list option \<Rightarrow> nat \<Rightarrow> 'v row list list
    \<Rightarrow> 'v chunk list \<times> ending" where
  "load_groups st key cols n [] = ([], Exhausted)"
| "load_groups st key cols n (data # groups) =
     (case load_look_ahead st key cols n data of
        Inl e \<Rightarrow> ([], e)
      | Inr la \<Rightarrow>
          (case load_groups st key cols n groups of
             (chunks, e) \<Rightarrow>
               (\<lparr>rows = data, look_ahead = la, timeframe = load_timeframe data\<rparr> # chunks, e)))"

text \<open>
  The \<open>generator\<close> of one period: a single empty \<open>DataFrame\<close>
  (\<open>repeat(pd.DataFrame(), 1)\<close>) when the period misses the window, the engine's iterator
  over the rows of the intersection otherwise.
\<close>

definition generator ::
  "'v HDFDataStore \<Rightarrow> string \<Rightarrow> string list option \<Rightarrow> nat \<Rightarrow> TimeFrame
    \<Rightarrow> error + 'v row list list option" where
  "generator ds key cols chunksize period =
     (let window_intersect = intersect (window ds) period in
      if tf_empty window_intersect then Inr (Some [[]])
      else select_where (store ds) key cols (query_terms window_intersect) chunksize)"

text \<open>The loop \<open>for period in periods\<close>.\<close>

fun load_periods ::
  "'v HDFDataStore \<Rightarrow> string \<Rightarrow> string list option \<Rightarrow> nat \<Rightarrow> nat \<Rightarrow> TimeFrame list
    \<Rightarrow> 'v chunk list \<times> ending" where
  "load_periods ds key cols n chunksize [] = ([], Exhausted)"
| "load_periods ds key cols n chunksize (period # periods) =
     (case generator ds key cols chunksize period of
        Inl e \<Rightarrow> ([], Raised e)
      | Inr None \<Rightarrow> ([], Never_returns)
      | Inr (Some groups) \<Rightarrow>
          (case load_groups (store ds) key cols n groups of
             (chunks, Exhausted) \<Rightarrow>
               (case load_periods ds key cols n chunksize periods of
                  (later, e) \<Rightarrow> (chunks @ later, e))
           | (chunks, e) \<Rightarrow> (chunks, e)))"

text \<open>
  The first lines of \<open>load\<close>, on a non-empty key: a slash at the front, none at the end.
\<close>

definition normalise_key :: "string \<Rightarrow> string" where
  "normalise_key key =
     (let key1 = (if hd key \<noteq> slash then slash # key else key)
      in if length key1 > 1 \<and> last key1 = slash then butlast key1 else key1)"

text \<open>
  \<open>load(key, cols, periods, n_look_ahead_rows, chunksize)\<close>.  \<open>key[0]\<close> raises \<open>IndexError\<close>
  on the empty string.  The two row counts are natural numbers.
\<close>

definition load ::
  "'v HDFDataStore \<Rightarrow> string \<Rightarrow> string list option \<Rightarrow> TimeFrame list option \<Rightarrow> nat \<Rightarrow> nat
    \<Rightarrow> 'v chunk list \<times> ending" where
  "load ds key cols periods n_look_ahead_rows chunksize =
     (if key = [] then ([], Raised IndexError)
      else
        let periods1 = (case periods of None \<Rightarrow> [TimeFrame_default] | Some ps \<Rightarrow> ps)
        in load_periods ds (normalise_key key) cols n_look_ahead_rows chunksize periods1)"

text \<open>
  \<open>HDFDataStore.close\<close> and \<open>HDFDataStore.open\<close>: the body of each is the one statement
  \<open>self.store.close()\<close>.
\<close>

definition HDFDataStore_close :: "'v HDFDataStore \<Rightarrow> 'v HDFDataStore" where
  "HDFDataStore_close ds = ds\<lparr>store := HDFStore_close (store ds)\<rparr>"

definition HDFDataStore_open :: "'v HDFDataStore \<Rightarrow> 'v HDFDataStore" where
  "HDFDataStore_open ds = ds\<lparr>store := HDFStore_close (store ds)\<rparr>"

subsection \<open>Keys, columns and the memory estimate\<close>

definition keys :: "'v HDFDataStore \<Rightarrow> string list" where
  "keys ds = map fst (nodes (store ds))"

definition check_key :: "'v HDFDataStore \<Rightarrow> string \<Rightarrow> error + unit" where
  "check_key ds key = (if key \<notin> set (keys ds) then Inl (KeyError key) else Inr ())"

definition get_storer :: "'v HDFDataStore \<Rightarrow> string \<Rightarrow> error + 'v node" where
  "get_storer ds key =
     (case check_key ds key of
        Inl e \<Rightarrow> Inl e
      | Inr _ \<Rightarrow>
          (case map_of (nodes (store ds)) key of
             None \<Rightarrow> Inl (AssertionError Storer_not_none)
           | Some storer \<Rightarrow> Inr storer))"

definition column_names :: "'v HDFDataStore \<Rightarrow> string \<Rightarrow> error + string list" where
  "column_names ds key =
     (case check_key ds key of
        Inl e \<Rightarrow> Inl e
      | Inr _ \<Rightarrow>
          (case get_storer ds key of
             Inl e \<Rightarrow> Inl e
           | Inr storer \<Rightarrow> Inr (col_names storer)))"

text \<open>\<open>cols\<close> is a list of column names here; the source also takes one name alone.\<close>

definition table_has_column_names :: "'v HDFDataStore \<Rightarrow> string \<Rightarrow> string list \<Rightarrow> error + bool" where
  "table_has_column_names ds key cols =
     (case check_key ds key of
        Inl e \<Rightarrow> Inl e
      | Inr _ \<Rightarrow>
          (case column_names ds key of
             Inl e \<Rightarrow> Inl e
           | Inr names \<Rightarrow> Inr (set cols \<subseteq> set (names @ [''index'']))))"

definition check_columns :: "'v HDFDataStore \<Rightarrow> string \<Rightarrow> string list option \<Rightarrow> error + unit" where
  "check_columns ds key columns =
     (case columns of
        None \<Rightarrow> Inr ()
      | Some cs \<Rightarrow>
          (case table_has_column_names ds key cs of
             Inl e \<Rightarrow> Inl e
           | Inr ok \<Rightarrow> if \<not> ok then Inl (KeyError_columns cs) else Inr ()))"

text \<open>\<open>MAX_MEM_ALLOWANCE_IN_BYTES = 1E9\<close>: the float is the integer \<open>10^9\<close> exactly.\<close>

definition MAX_MEM_ALLOWANCE_IN_BYTES :: int where
  "MAX_MEM_ALLOWANCE_IN_BYTES = 1000000000"

definition estimate_memory_requirement ::
  "'v HDFDataStore \<Rightarrow> string \<Rightarrow> int \<Rightarrow> string list option \<Rightarrow> bool \<Rightarrow> error + int" where
  "estimate_memory_requirement ds key nrows cols paranoid =
     (let BYTES_PER_ELEMENT = 4; BYTES_PER_TIMESTAMP = 8 in
      case (if paranoid then check_key ds key else Inr ()) of
        Inl e \<Rightarrow> Inl e
      | Inr _ \<Rightarrow>
          (case (case cols of
                   None \<Rightarrow> column_names ds key
                 | Some cs \<Rightarrow>
                     if paranoid
                     then (case check_columns ds key cols of Inl e \<Rightarrow> Inl e | Inr _ \<Rightarrow> Inr cs)
                     else Inr cs) of
             Inl e \<Rightarrow> Inl e
           | Inr cols1 \<Rightarrow>
               let ncols = int (length cols1);
                   est_mem_usage_for_data = nrows * ncols * BYTES_PER_ELEMENT;
                   est_mem_usage_for_index = nrows * BYTES_PER_TIMESTAMP
               in if cols1 = [''index''] then Inr est_mem_usage_for_index
                  else Inr (est_mem_usage_for_data + est_mem_usage_for_index)))"

definition check_data_will_fit_in_memory ::
  "'v HDFDataStore \<Rightarrow> string \<Rightarrow> int \<Rightarrow> string list option \<Rightarrow> error + unit" where
  "check_data_will_fit_in_memory ds key nrows cols =
     (case estimate_memory_requirement ds key nrows cols False of
        Inl e \<Rightarrow> Inl e
      | Inr mem_requirement \<Rightarrow>
          if mem_requirement > MAX_MEM_ALLOWANCE_IN_BYTES
          then Inl (MemoryError (of_int mem_requirement / 1000000))
          else Inr ())"

section \<open>Properties of \<open>join_key\<close>\<close>

lemma join_key_loop_concat:
  "join_key_loop key args =
     key @ concat (map (\<lambda>s. s @ [slash])
                     (filter (\<lambda>s. s \<noteq> []) (map (\<lambda>a. strip_slash (str a)) args)))"
  by (induction args arbitrary: key) (simp_all add: Let_def)

lemma butlast_concat_slash:
  "xs \<noteq> [] \<Longrightarrow> butlast (concat (map (\<lambda>s. s @ [slash]) xs)) = intercalate_slash xs"
proof (induction xs rule: intercalate_slash.induct)
  case 1
  then show ?case by simp
next
  case (2 s)
  then show ?case by simp
next
  case (3 s t ts)
  have "concat (map (\<lambda>s. s @ [slash]) (t # ts)) \<noteq> []" by simp
  then have "butlast (concat (map (\<lambda>s. s @ [slash]) (s # t # ts)))
      = (s @ [slash]) @ butlast (concat (map (\<lambda>s. s @ [slash]) (t # ts)))"
    by (simp only: list.map concat.simps butlast_append if_False)
  with 3 show ?case by simp
qed

lemma join_key_eq_join_spec: "join_key args = join_spec args"
proof (cases "filter (\<lambda>s. s \<noteq> []) (map (\<lambda>a. strip_slash (str a)) args) = []")
  case True
  then show ?thesis
    by (simp add: join_key_def join_spec_def join_key_loop_concat)
next
  case False
  then show ?thesis
    using butlast_concat_slash [OF False]
    by (simp add: join_key_def join_spec_def join_key_loop_concat Let_def)
qed

lemma strip_slash_last: "strip_slash s \<noteq> [] \<Longrightarrow> last (strip_slash s) \<noteq> slash"
proof -
  assume ne: "strip_slash s \<noteq> []"
  define ys where "ys = dropWhile (\<lambda>c. c = slash) (rev (dropWhile (\<lambda>c. c = slash) s))"
  from ne have "ys \<noteq> []" by (simp add: strip_slash_def ys_def)
  then have "hd ys \<noteq> slash" unfolding ys_def using hd_dropWhile [of "\<lambda>c. c = slash"] by blast
  moreover have "last (strip_slash s) = hd ys"
    using \<open>ys \<noteq> []\<close> by (simp add: strip_slash_def ys_def last_rev)
  ultimately show ?thesis by simp
qed

lemma intercalate_slash_nonempty:
  "xs \<noteq> [] \<Longrightarrow> \<forall>s\<in>set xs. s \<noteq> [] \<Longrightarrow> intercalate_slash xs \<noteq> []"
  by (induction xs rule: intercalate_slash.induct) simp_all

lemma last_intercalate_slash:
  "xs \<noteq> [] \<Longrightarrow> \<forall>s\<in>set xs. s \<noteq> [] \<Longrightarrow> last (intercalate_slash xs) = last (last xs)"
proof (induction xs rule: intercalate_slash.induct)
  case 1
  then show ?case by simp
next
  case (2 s)
  then show ?case by simp
next
  case (3 s t ts)
  have all: "\<forall>s\<in>set (t # ts). s \<noteq> []" using "3.prems" by simp
  have "last (intercalate_slash (t # ts)) = last (last (t # ts))"
    using "3.IH" all by simp
  moreover have "intercalate_slash (t # ts) \<noteq> []"
    using intercalate_slash_nonempty [of "t # ts"] all by simp
  ultimately show ?case by simp
qed

lemma join_spec_no_trailing_slash: "join_spec args = [slash] \<or> last (join_spec args) \<noteq> slash"
proof (cases "filter (\<lambda>s. s \<noteq> []) (map (\<lambda>a. strip_slash (str a)) args) = []")
  case True
  then show ?thesis by (simp add: join_spec_def)
next
  case False
  define xs where "xs = filter (\<lambda>s. s \<noteq> []) (map (\<lambda>a. strip_slash (str a)) args)"
  have ne: "xs \<noteq> []" using False by (simp add: xs_def)
  have all: "\<forall>s\<in>set xs. s \<noteq> []" by (auto simp: xs_def)
  have "last xs \<in> set xs" using ne by simp
  then obtain a where "last xs = strip_slash (str a)" "strip_slash (str a) \<noteq> []"
    by (auto simp: xs_def)
  then have "last (last xs) \<noteq> slash" using strip_slash_last by simp
  then have "last (intercalate_slash xs) \<noteq> slash"
    using last_intercalate_slash [OF ne all] by simp
  then have "last (join_spec args) \<noteq> slash"
    using intercalate_slash_nonempty [OF ne all] by (simp add: join_spec_def xs_def)
  then show ?thesis by simp
qed

text \<open>
  C8.  \<open>join_key\<close> returns a slash followed by the non-empty stripped segments joined
  with slashes (\<open>join_spec\<close>); the result is the single slash or does not end in a slash;
  segments that are all empty after stripping, or no segment at all, give the single slash;
  and the documented examples hold.
\<close>

theorem join_key_canonical:
  "join_key args = join_spec args
   \<and> (join_key args = ''/'' \<or> last (join_key args) \<noteq> CHR ''/'')
   \<and> (list_all (\<lambda>a. strip_slash (str a) = []) args \<longrightarrow> join_key args = ''/'')
   \<and> join_key [Seg_str ''building1'', Seg_str ''elec'', Seg_str ''meter1''] = ''/building1/elec/meter1''
   \<and> join_key [Seg_str ''/''] = ''/''
   \<and> join_key [Seg_str ''''] = ''/''
   \<and> join_key [] = ''/''"
proof -
  have a: "join_key args = join_spec args" by (rule join_key_eq_join_spec)
  have b: "join_key args = ''/'' \<or> last (join_key args) \<noteq> CHR ''/''"
    using join_spec_no_trailing_slash [of args] by (simp add: a slash_def)
  have c: "list_all (\<lambda>a. strip_slash (str a) = []) args \<longrightarrow> join_key args = ''/''"
  proof
    assume "list_all (\<lambda>a. strip_slash (str a) = []) args"
    then have "filter (\<lambda>s. s \<noteq> []) (map (\<lambda>a. strip_slash (str a)) args) = []"
      by (induction args) auto
    then show "join_key args = ''/''" by (simp add: a join_spec_def slash_def)
  qed
  have d: "join_key [Seg_str ''building1'', Seg_str ''elec'', Seg_str ''meter1''] = ''/building1/elec/meter1''"
    by (simp add: join_key_def strip_slash_def slash_def)
  have e: "join_key [Seg_str ''/''] = ''/''" by (simp add: join_key_def strip_slash_def slash_def)
  have f: "join_key [Seg_str ''''] = ''/''" by (simp add: join_key_def strip_slash_def slash_def)
  have g: "join_key [] = ''/''" by (simp add: join_key_def slash_def)
  from a b c d e f g show ?thesis by blast
qed

theorem join_key_canonical_witness:
  "join_key [Seg_int 12, Seg_str ''//a/b//'', Seg_str ''//''] = ''/12/a/b''
   \<and> join_spec [Seg_int 12, Seg_str ''//a/b//'', Seg_str ''//''] = ''/12/a/b''
   \<and> list_all (\<lambda>a. strip_slash (str a) = []) [Seg_str ''//'', Seg_str '''']
   \<and> join_key [Seg_str ''//'', Seg_str ''''] = ''/''"
proof -
  have s: "join_spec [Seg_int 12, Seg_str ''//a/b//'', Seg_str ''//''] = ''/12/a/b''"
    by code_simp
  have l: "list_all (\<lambda>a. strip_slash (str a) = []) [Seg_str ''//'', Seg_str '''']"
    by (simp add: strip_slash_def slash_def)
  have "join_key [Seg_int 12, Seg_str ''//a/b//'', Seg_str ''//''] = ''/12/a/b''"
    using join_key_canonical [of "[Seg_int 12, Seg_str ''//a/b//'', Seg_str ''//'']"] s
    by (simp only:)
  moreover have "join_key [Seg_str ''//'', Seg_str ''''] = ''/''"
    using join_key_canonical [of "[Seg_str ''//'', Seg_str '''']"] l by blast
  ultimately show ?thesis using s l by blast
qed

section \<open>Properties of \<open>load\<close>\<close>

subsection \<open>The engine's iterators\<close>

lemma chunks_of_member:
  "g \<in> set (chunks_of n xs) \<Longrightarrow> g \<noteq> [] \<and> length g \<le> n \<and> set g \<subseteq> set xs"
proof (induction n xs rule: chunks_of.induct)
  case (1 n xs)
  show ?case
  proof (cases "n = 0 \<or> xs = []")
    case True
    with "1.prems" show ?thesis by (simp add: chunks_of.simps [of n xs])
  next
    case False
    with "1.prems" have "g = take n xs \<or> g \<in> set (chunks_of n (drop n xs))"
      by (simp add: chunks_of.simps [of n xs])
    then show ?thesis
    proof
      assume "g = take n xs"
      with False show ?thesis by (auto dest: in_set_takeD)
    next
      assume "g \<in> set (chunks_of n (drop n xs))"
      with "1.IH" False have "g \<noteq> [] \<and> length g \<le> n \<and> set g \<subseteq> set (drop n xs)" by simp
      then show ?thesis by (auto dest: in_set_dropD)
    qed
  qed
qed

lemma table_iterator_groups:
  "table_iterator n xs = Some gs \<Longrightarrow> gs = chunks_of n xs \<and> (xs \<noteq> [] \<longrightarrow> 0 < n)"
  by (auto simp: table_iterator_def chunks_of.simps [of n "[]"] split: if_splits)

lemma first_coordinate:
  assumes "filter P [0 ..< m] \<noteq> []"
  shows "hd (filter P [0 ..< m]) < m \<and> P (hd (filter P [0 ..< m]))
         \<and> (\<forall>j < hd (filter P [0 ..< m]). \<not> P j)"
proof -
  obtain p ps where f: "filter P [0 ..< m] = p # ps"
    using assms by (cases "filter P [0 ..< m]") auto
  then obtain us vs where s: "[0 ..< m] = us @ p # vs" and u: "\<forall>u\<in>set us. \<not> P u" and p: "P p"
    by (auto simp: filter_eq_Cons_iff)
  have "p \<in> set [0 ..< m]" using s by simp
  then have pm: "p < m" by simp
  have srt: "sorted (us @ p # vs)" using s sorted_upt [of 0 m] by simp
  have "\<not> P j" if "j < p" for j
  proof -
    have "j \<in> set (us @ p # vs)" using that pm s by (metis atLeastLessThan_iff set_upt less_trans zero_le)
    moreover have "\<forall>v\<in>set vs. p \<le> v" using srt by (auto simp: sorted_append)
    ultimately have "j \<in> set us" using that by auto
    with u show ?thesis by blast
  qed
  with f pm p show ?thesis by simp
qed

text \<open>What \<open>load_look_ahead\<close> returns for a group of rows.\<close>

lemma load_look_ahead_empty:
  "load_look_ahead st key cols n [] = Inr []"
  by (simp add: load_look_ahead_def)

lemma load_look_ahead_on_disk:
  assumes la: "load_look_ahead st key cols n data = Inr la" and ne: "la \<noteq> []"
  shows "data \<noteq> [] \<and>
    (\<exists>node pos. map_of (nodes st) key = Some node
       \<and> pos < length (table_rows node)
       \<and> fst (last data) < fst (table_rows node ! pos)
       \<and> (\<forall>j<pos. \<not> fst (last data) < fst (table_rows node ! j))
       \<and> 0 < n
       \<and> la = map (project cols) (take n (drop pos (table_rows node))))"
proof -
  have d: "data \<noteq> []"
    using la ne by (cases data) (auto simp: load_look_ahead_def)
  obtain node where node: "map_of (nodes st) key = Some node"
    using la d by (cases "map_of (nodes st) key")
      (auto simp: load_look_ahead_def select_as_coordinates_def)
  define P where "P = (\<lambda>i. satisfies [Index_gt (fst (last data))] (table_rows node ! i))"
  define coords where "coords = filter P [0 ..< length (table_rows node)]"
  have sc: "select_as_coordinates st key [Index_gt (fst (last data))] = Inr coords"
    by (simp add: select_as_coordinates_def node coords_def P_def)
  have cne: "coords \<noteq> []"
    using la ne d sc by (auto simp: load_look_ahead_def split: if_splits)
  define pos where "pos = hd coords"
  have c0: "coords ! 0 = pos" using cne by (simp add: pos_def hd_conv_nth)
  from first_coordinate [of P "length (table_rows node)"] cne
  have pos: "pos < length (table_rows node)" "P pos" "\<forall>j<pos. \<not> P j"
    by (simp_all add: coords_def pos_def)
  define xs where "xs = map (project cols) (drop pos (table_rows node))"
  have xne: "xs \<noteq> []" using pos(1) by (simp add: xs_def)
  have ss: "select_start st key cols pos n = Inr (table_iterator n xs)"
    by (simp add: select_start_def node xs_def)
  have "0 < n \<and> la = take n xs"
  proof (cases "n = 0")
    case True
    then have "table_iterator n xs = None" using xne by (simp add: table_iterator_def)
    with la d sc cne c0 ss show ?thesis by (simp add: load_look_ahead_def)
  next
    case False
    then have "table_iterator n xs = Some (take n xs # chunks_of n (drop n xs))"
      using xne by (simp add: table_iterator_def chunks_of.simps [of n xs])
    with la d sc cne c0 ss False show ?thesis by (simp add: load_look_ahead_def)
  qed
  then have "0 < n" and "la = map (project cols) (take n (drop pos (table_rows node)))"
    by (simp_all add: xs_def take_map)
  moreover have "fst (last data) < fst (table_rows node ! pos)"
    using pos(2) by (simp add: P_def satisfies_def)
  moreover have "\<forall>j<pos. \<not> fst (last data) < fst (table_rows node ! j)"
    using pos(3) by (simp add: P_def satisfies_def)
  ultimately show ?thesis using d node pos(1) by blast
qed

lemma fst_project: "fst (project cols r) = fst r"
  by (simp add: project_def split: option.splits)

lemma load_look_ahead_props:
  assumes "load_look_ahead st key cols n data = Inr la"
  shows "length la \<le> n \<and> (la \<noteq> [] \<longrightarrow> data \<noteq> [] \<and> fst (last data) < fst (hd la))"
proof (cases "la = []")
  case True
  then show ?thesis by simp
next
  case False
  from load_look_ahead_on_disk [OF assms False]
  obtain node pos where d: "data \<noteq> []" and "map_of (nodes st) key = Some node"
    and p: "pos < length (table_rows node)"
    and gt: "fst (last data) < fst (table_rows node ! pos)" and n: "0 < n"
    and la: "la = map (project cols) (take n (drop pos (table_rows node)))"
    by blast
  have "take n (drop pos (table_rows node)) \<noteq> []" using p n by simp
  then have "hd la = project cols (hd (take n (drop pos (table_rows node))))"
    by (simp add: la hd_map)
  also have "hd (take n (drop pos (table_rows node))) = table_rows node ! pos"
    using p n by (simp add: hd_drop_conv_nth)
  finally have "fst (hd la) = fst (table_rows node ! pos)" by (simp add: fst_project)
  with gt d la show ?thesis by simp
qed

text \<open>Where a yielded chunk comes from.\<close>

lemma load_groups_member:
  "c \<in> set (fst (load_groups st key cols n groups)) \<Longrightarrow>
     rows c \<in> set groups
     \<and> load_look_ahead st key cols n (rows c) = Inr (look_ahead c)
     \<and> timeframe c = load_timeframe (rows c)"
proof (induction groups)
  case Nil
  then show ?case by simp
next
  case (Cons data groups)
  show ?case
  proof (cases "load_look_ahead st key cols n data")
    case (Inl e)
    with Cons.prems show ?thesis by simp
  next
    case (Inr la)
    obtain chunks e where r: "load_groups st key cols n groups = (chunks, e)"
      by (cases "load_groups st key cols n groups")
    with Inr Cons.prems
    have "c = \<lparr>rows = data, look_ahead = la, timeframe = load_timeframe data\<rparr> \<or> c \<in> set chunks"
      by simp
    then show ?thesis
    proof
      assume "c = \<lparr>rows = data, look_ahead = la, timeframe = load_timeframe data\<rparr>"
      with Inr show ?thesis by simp
    next
      assume "c \<in> set chunks"
      with Cons.IH r show ?thesis by simp
    qed
  qed
qed

lemma load_periods_member:
  "c \<in> set (fst (load_periods ds key cols n chunksize periods)) \<Longrightarrow>
     \<exists>period\<in>set periods. \<exists>groups.
        generator ds key cols chunksize period = Inr (Some groups)
        \<and> c \<in> set (fst (load_groups (store ds) key cols n groups))"
proof (induction periods)
  case Nil
  then show ?case by simp
next
  case (Cons period periods)
  show ?case
  proof (cases "generator ds key cols chunksize period")
    case (Inl e)
    with Cons.prems show ?thesis by simp
  next
    case (Inr it)
    show ?thesis
    proof (cases it)
      case None
      with Inr Cons.prems show ?thesis by simp
    next
      case (Some groups)
      obtain chunks e where g: "load_groups (store ds) key cols n groups = (chunks, e)"
        by (cases "load_groups (store ds) key cols n groups")
      obtain later e' where l: "load_periods ds key cols n chunksize periods = (later, e')"
        by (cases "load_periods ds key cols n chunksize periods")
      from Cons.prems Inr Some g l have "c \<in> set chunks \<or> c \<in> set later"
        by (cases e) auto
      then show ?thesis
      proof
        assume "c \<in> set chunks"
        with Inr Some g show ?thesis by auto
      next
        assume "c \<in> set later"
        with Cons.IH l show ?thesis by auto
      qed
    qed
  qed
qed

lemma load_member:
  assumes "c \<in> set (fst (load ds key cols periods n chunksize))"
  shows "\<exists>period groups.
        generator ds (normalise_key key) cols chunksize period = Inr (Some groups)
        \<and> rows c \<in> set groups
        \<and> load_look_ahead (store ds) (normalise_key key) cols n (rows c) = Inr (look_ahead c)
        \<and> timeframe c = load_timeframe (rows c)"
proof -
  from assms have "key \<noteq> []" by (auto simp: load_def)
  with assms obtain ps where
    "c \<in> set (fst (load_periods ds (normalise_key key) cols n chunksize ps))"
    by (auto simp: load_def Let_def)
  from load_periods_member [OF this] load_groups_member show ?thesis by blast
qed

subsection \<open>Rows and the window\<close>

lemma satisfies_query_terms:
  "\<not> tf_empty tf \<Longrightarrow> satisfies (query_terms tf) r = in_timeframe tf (fst r)"
  by (cases "tf_start tf"; cases "tf_end tf")
    (simp_all add: satisfies_def query_terms_def in_timeframe_def)

lemma in_timeframe_intersect:
  "in_timeframe (intersect a b) t = (in_timeframe a t \<and> in_timeframe b t)"
  by (cases "tf_start a"; cases "tf_start b"; cases "tf_end a"; cases "tf_end b")
    (auto simp: intersect_def in_timeframe_def TimeFrame_none_def TimeFrame_new_def
      later_start_def earlier_end_def Let_def)

lemma generator_rows_in_window:
  assumes g: "generator ds key cols chunksize period = Inr (Some groups)"
    and d: "data \<in> set groups" and r: "r \<in> set data"
  shows "in_timeframe (window ds) (fst r) \<and> in_timeframe period (fst r)"
proof (cases "tf_empty (intersect (window ds) period)")
  case True
  with g have "groups = [[]]" by (simp add: generator_def)
  with d r show ?thesis by simp
next
  case False
  define wi where "wi = intersect (window ds) period"
  from g False obtain node where "map_of (nodes (store ds)) key = Some node" and
    it: "table_iterator chunksize
           (map (project cols) (filter (satisfies (query_terms wi)) (table_rows node)))
         = Some groups"
    by (auto simp: generator_def select_where_def wi_def Let_def split: option.splits)
  from table_iterator_groups [OF it] d
  have "data \<in> set (chunks_of chunksize
           (map (project cols) (filter (satisfies (query_terms wi)) (table_rows node))))"
    by simp
  from chunks_of_member [OF this] r
  obtain r' where "r = project cols r'" and "satisfies (query_terms wi) r'"
    by auto
  then have "satisfies (query_terms wi) r"
    by (simp add: satisfies_def fst_project)
  with False have "in_timeframe wi (fst r)"
    by (simp add: satisfies_query_terms wi_def)
  then show ?thesis by (simp add: wi_def in_timeframe_intersect)
qed

text \<open>
  C1, as amended.  For every chunk that \<open>load\<close> yields, the look-ahead has at most
  \<open>n_look_ahead_rows\<close> rows; when it is not empty, the chunk has rows, the index of the
  first look-ahead row is strictly greater than the index of the chunk's last row, and the
  look-ahead is read from the table as it lies on disk: it is the block of
  \<open>n_look_ahead_rows\<close> rows (fewer at the end of the table) that starts at the first
  position whose index exceeds the chunk's last index, whatever the window and the periods.
  That position need not be the one right after the chunk's last row.
\<close>

theorem load_look_ahead_after_chunk:
  assumes "c \<in> set (fst (load ds key cols periods n_look_ahead_rows chunksize))"
  shows "length (look_ahead c) \<le> n_look_ahead_rows
    \<and> (look_ahead c \<noteq> [] \<longrightarrow>
         rows c \<noteq> []
         \<and> fst (last (rows c)) < fst (hd (look_ahead c))
         \<and> (\<exists>node pos. map_of (nodes (store ds)) (normalise_key key) = Some node
              \<and> pos < length (table_rows node)
              \<and> (\<forall>j<pos. fst (table_rows node ! j) \<le> fst (last (rows c)))
              \<and> look_ahead c =
                  map (project cols) (take n_look_ahead_rows (drop pos (table_rows node)))))"
proof -
  from load_member [OF assms]
  have la: "load_look_ahead (store ds) (normalise_key key) cols n_look_ahead_rows (rows c)
              = Inr (look_ahead c)"
    by blast
  from load_look_ahead_props [OF la]
  have a: "length (look_ahead c) \<le> n_look_ahead_rows"
    and b: "look_ahead c \<noteq> [] \<longrightarrow>
              rows c \<noteq> [] \<and> fst (last (rows c)) < fst (hd (look_ahead c))"
    by simp_all
  have "\<exists>node pos. map_of (nodes (store ds)) (normalise_key key) = Some node
              \<and> pos < length (table_rows node)
              \<and> (\<forall>j<pos. fst (table_rows node ! j) \<le> fst (last (rows c)))
              \<and> look_ahead c =
                  map (project cols) (take n_look_ahead_rows (drop pos (table_rows node)))"
    if "look_ahead c \<noteq> []"
  proof -
    from load_look_ahead_on_disk [OF la that]
    obtain node pos where "map_of (nodes (store ds)) (normalise_key key) = Some node"
      "pos < length (table_rows node)"
      "\<forall>j<pos. \<not> fst (last (rows c)) < fst (table_rows node ! j)"
      "look_ahead c = map (project cols) (take n_look_ahead_rows (drop pos (table_rows node)))"
      by blast
    then show ?thesis by (intro exI [of _ node] exI [of _ pos]) (simp add: not_less)
  qed
  with a b show ?thesis by blast
qed

theorem load_look_ahead_after_chunk_witness:
  "\<lparr>rows = [(1, []), (2, [])], look_ahead = [(3, []), (4, [])],
     timeframe = TimeFrame_new (Some 1) (Some 2)\<rparr>
     \<in> set (fst (load
         \<lparr>store = \<lparr>nodes = [(''/k'', \<lparr>col_names = [],
              table_rows = [(1, []), (2, []), (3, []), (4, []), (5, [])] :: unit row list\<rparr>)],
            is_open = True\<rparr>,
          window = TimeFrame_new None (Some 3)\<rparr> ''k/'' None None 2 10))
   \<and> length [(3, []), (4, [])  :: unit row] \<le> 2
   \<and> fst (last [(1, []), (2, []) :: unit row]) < fst (hd [(3, []), (4, []) :: unit row])"
proof -
  let ?c = "\<lparr>rows = [(1, []), (2, []) :: unit row], look_ahead = [(3, []), (4, [])],
     timeframe = TimeFrame_new (Some 1) (Some 2)\<rparr>"
  let ?ds = "\<lparr>store = \<lparr>nodes = [(''/k'', \<lparr>col_names = [],
              table_rows = [(1, []), (2, []), (3, []), (4, []), (5, [])] :: unit row list\<rparr>)],
            is_open = True\<rparr>,
          window = TimeFrame_new None (Some 3)\<rparr>"
  have l: "load ?ds ''k/'' None None 2 10 = ([?c], Exhausted)"
    by code_simp
  then have m: "?c \<in> set (fst (load ?ds ''k/'' None None 2 10))" by simp
  from load_look_ahead_after_chunk [OF m] m show ?thesis by simp
qed

text \<open>
  C1, as stated, fails: the first look-ahead row need not be the physically next row on
  disk.  On a table with the indices 1, 2, 2 and 3, read in groups of two rows, the first
  chunk holds the rows at the positions 0 and 1 and ends with the index 2; the next row on
  disk, at position 2, has the index 2 as well, and \<open>index > data.index[-1]\<close> passes over
  it: the look-ahead starts at position 3, with the index 3.
\<close>

theorem load_look_ahead_skips_next_row:
  "load \<lparr>store = \<lparr>nodes = [(''/k'', \<lparr>col_names = [''a''],
              table_rows = [(1, [(''a'', 10)]), (2, [(''a'', 20)]),
                            (2, [(''a'', 21)]), (3, [(''a'', 30)])] :: nat row list\<rparr>)],
            is_open = True\<rparr>,
         window = TimeFrame_default\<rparr> ''/k'' None None 10 2
     = ([\<lparr>rows = [(1, [(''a'', 10)]), (2, [(''a'', 20)])],
          look_ahead = [(3, [(''a'', 30)])],
          timeframe = TimeFrame_new (Some 1) (Some 2)\<rparr>,
         \<lparr>rows = [(2, [(''a'', 21)]), (3, [(''a'', 30)])],
          look_ahead = [],
          timeframe = TimeFrame_new (Some 2) (Some 3)\<rparr>], Exhausted)
   \<and> ([(1, [(''a'', 10)]), (2, [(''a'', 20)]),
        (2, [(''a'', 21)]), (3, [(''a'', 30)])] :: nat row list) ! 2
       = (2, [(''a'', 21)])
   \<and> hd ([(3, [(''a'', 30)])] :: nat row list) \<noteq> (2, [(''a'', 21)])"
  by code_simp

text \<open>
  C4, as amended.  Every row of the row set of a chunk that \<open>load\<close> yields has its index
  inside the window.  The rows of the look-ahead are not bound by the window.
\<close>

theorem load_rows_inside_window:
  assumes "c \<in> set (fst (load ds key cols periods n_look_ahead_rows chunksize))"
    and "r \<in> set (rows c)"
  shows "in_timeframe (window ds) (fst r)"
proof -
  from load_member [OF assms(1)]
  obtain period groups where
    "generator ds (normalise_key key) cols chunksize period = Inr (Some groups)"
    "rows c \<in> set groups"
    by blast
  from generator_rows_in_window [OF this assms(2)] show ?thesis by simp
qed

theorem load_rows_inside_window_witness:
  "\<lparr>rows = [(1, []), (2, [])], look_ahead = [(3, []), (4, [])],
     timeframe = TimeFrame_new (Some 1) (Some 2)\<rparr>
     \<in> set (fst (load
         \<lparr>store = \<lparr>nodes = [(''/k'', \<lparr>col_names = [],
              table_rows = [(1, []), (2, []), (3, []), (4, []), (5, [])] :: unit row list\<rparr>)],
            is_open = True\<rparr>,
          window = TimeFrame_new None (Some 3)\<rparr> ''k/'' None None 2 10))
   \<and> in_timeframe (TimeFrame_new None (Some 3)) 2"
proof -
  let ?c = "\<lparr>rows = [(1, []), (2, []) :: unit row], look_ahead = [(3, []), (4, [])],
     timeframe = TimeFrame_new (Some 1) (Some 2)\<rparr>"
  let ?ds = "\<lparr>store = \<lparr>nodes = [(''/k'', \<lparr>col_names = [],
              table_rows = [(1, []), (2, []), (3, []), (4, []), (5, [])] :: unit row list\<rparr>)],
            is_open = True\<rparr>,
          window = TimeFrame_new None (Some 3)\<rparr>"
  have l: "load ?ds ''k/'' None None 2 10 = ([?c], Exhausted)"
    by code_simp
  then have m: "?c \<in> set (fst (load ?ds ''k/'' None None 2 10))" by simp
  from load_rows_inside_window [OF m, of "(2, [])"] m show ?thesis by simp
qed

text \<open>
  C4, as stated, fails: with the window \<open>[1, 2)\<close> on a table with the indices 1, 2 and 3,
  the only chunk holds the row 1 and its look-ahead the rows 2 and 3, both outside the
  window.
\<close>

theorem load_look_ahead_outside_window:
  "load \<lparr>store = \<lparr>nodes = [(''/k'', \<lparr>col_names = [],
              table_rows = [(1, []), (2, []), (3, [])] :: unit row list\<rparr>)],
            is_open = True\<rparr>,
         window = TimeFrame_new (Some 1) (Some 2)\<rparr> ''/k'' None None 10 10
     = ([\<lparr>rows = [(1, [])], look_ahead = [(2, []), (3, [])],
          timeframe = TimeFrame_new (Some 1) (Some 1)\<rparr>], Exhausted)
   \<and> \<not> in_timeframe (TimeFrame_new (Some 1) (Some 2)) 2
   \<and> \<not> in_timeframe (TimeFrame_new (Some 1) (Some 2)) 3"
  by code_simp

subsection \<open>Periods that miss the window, and the time frame of a chunk\<close>

lemma load_periods_empty_intersection:
  assumes "tf_empty (intersect (window ds) period)"
  shows "load_periods ds key cols n chunksize (period # periods) =
     (\<lparr>rows = [], look_ahead = [], timeframe = TimeFrame_default\<rparr>
        # fst (load_periods ds key cols n chunksize periods),
      snd (load_periods ds key cols n chunksize periods))"
  using assms
  by (simp add: generator_def load_look_ahead_empty load_timeframe_def split: prod.splits)

lemma load_timeframe_of_chunk:
  assumes "c \<in> set (fst (load ds key cols periods n chunksize))"
  shows "timeframe c =
     (if rows c \<noteq> [] then TimeFrame_new (Some (fst (hd (rows c)))) (Some (fst (last (rows c))))
      else TimeFrame_default)"
  using load_member [OF assms] by (auto simp: load_timeframe_def)

lemma chunks_of_block:
  "g \<in> set (chunks_of n xs) \<Longrightarrow> \<exists>k. g = take n (drop k xs)"
proof (induction n xs rule: chunks_of.induct)
  case (1 n xs)
  show ?case
  proof (cases "n = 0 \<or> xs = []")
    case True
    with "1.prems" show ?thesis by (simp add: chunks_of.simps [of n xs])
  next
    case False
    with "1.prems" have "g = take n xs \<or> g \<in> set (chunks_of n (drop n xs))"
      by (simp add: chunks_of.simps [of n xs])
    then show ?thesis
    proof
      assume "g = take n xs"
      then have "g = take n (drop 0 xs)" by simp
      then show ?thesis by blast
    next
      assume "g \<in> set (chunks_of n (drop n xs))"
      with "1.IH" False obtain k where "g = take n (drop k (drop n xs))" by blast
      then have "g = take n (drop (k + n) xs)" by simp
      then show ?thesis by blast
    qed
  qed
qed

lemma sorted_le_last:
  fixes ys :: "int list"
  shows "sorted ys \<Longrightarrow> y \<in> set ys \<Longrightarrow> y \<le> last ys"
  by (induction ys) auto

lemma sorted_hd_Min:
  fixes ys :: "int list"
  assumes "sorted ys" "ys \<noteq> []"
  shows "hd ys = Min (set ys) \<and> last ys = Max (set ys)"
proof -
  obtain y rest where ys: "ys = y # rest" using assms(2) by (cases ys) auto
  have "Min (set ys) = hd ys"
    using assms(1) ys by (intro Min_eqI) auto
  moreover have "Max (set ys) = last ys"
    using assms by (intro Max_eqI) (auto simp: sorted_le_last)
  ultimately show ?thesis by simp
qed

lemma load_timeframe_spans_sorted_rows:
  assumes c: "c \<in> set (fst (load ds key cols periods n chunksize))"
    and ne: "rows c \<noteq> []"
    and node: "map_of (nodes (store ds)) (normalise_key key) = Some node"
    and srt: "sorted (map fst (table_rows node))"
  shows "timeframe c = TimeFrame_new (Some (Min (fst ` set (rows c)))) (Some (Max (fst ` set (rows c))))"
proof -
  from load_member [OF c]
  obtain period groups where
    g: "generator ds (normalise_key key) cols chunksize period = Inr (Some groups)"
    and d: "rows c \<in> set groups"
    by blast
  have nonempty: "\<not> tf_empty (intersect (window ds) period)"
  proof
    assume "tf_empty (intersect (window ds) period)"
    with g have "groups = [[]]" by (simp add: generator_def)
    with d ne show False by simp
  qed
  define xs where "xs = filter (satisfies (query_terms (intersect (window ds) period)))
                          (table_rows node)"
  from g nonempty node have "table_iterator chunksize (map (project cols) xs) = Some groups"
    by (simp add: generator_def select_where_def xs_def)
  from table_iterator_groups [OF this] d
  have "rows c \<in> set (chunks_of chunksize (map (project cols) xs))" by simp
  from chunks_of_block [OF this]
  obtain k where k: "rows c = take chunksize (drop k (map (project cols) xs))" by blast
  have "map fst (map (project cols) xs) = map fst xs"
    by (simp add: fst_project)
  moreover have "map fst (rows c) = take chunksize (drop k (map fst (map (project cols) xs)))"
    by (simp only: k take_map drop_map)
  ultimately have "map fst (rows c) = take chunksize (drop k (map fst xs))"
    by (simp only:)
  moreover have "sorted (map fst xs)"
    unfolding xs_def using srt by (rule sorted_filter)
  ultimately have "sorted (map fst (rows c))"
    by (simp add: sorted_wrt_take sorted_wrt_drop)
  from sorted_hd_Min [OF this] ne
  have "fst (hd (rows c)) = Min (fst ` set (rows c))" "fst (last (rows c)) = Max (fst ` set (rows c))"
    by (simp_all add: hd_map last_map)
  with load_timeframe_of_chunk [OF c] ne show ?thesis by simp
qed

text \<open>
  C2.  The chunk of a period that misses the window has no rows, and its time frame is
  \<open>TimeFrame()\<close>: the interval without bounds, which is not empty and holds every time
  stamp.  (For a chunk with rows the time frame is the one the claim states, see
  \<open>load_timeframe_of_chunk\<close> and \<open>load_timeframe_spans_sorted_rows\<close>.)
\<close>

theorem load_empty_chunk_timeframe_unbounded:
  "load \<lparr>store = \<lparr>nodes = [(''/k'', \<lparr>col_names = [],
              table_rows = [(1, []), (2, []), (3, [])] :: unit row list\<rparr>)],
            is_open = True\<rparr>,
         window = TimeFrame_new (Some 0) (Some 10)\<rparr> ''/k'' None
         (Some [TimeFrame_new (Some 20) (Some 30)]) 10 10
     = ([\<lparr>rows = [], look_ahead = [],
          timeframe = \<lparr>tf_start = None, tf_end = None, tf_empty = False\<rparr>\<rparr>], Exhausted)
   \<and> in_timeframe \<lparr>tf_start = None, tf_end = None, tf_empty = False\<rparr> 0
   \<and> TimeFrame_default = \<lparr>tf_start = None, tf_end = None, tf_empty = False\<rparr>"
  by code_simp

text \<open>
  C3.  A period outside the window gives one chunk without rows and without look-ahead,
  no exception, and the next period is served; the time frame of that chunk is
  \<open>TimeFrame()\<close>, which is not an empty interval.  (\<open>load_periods_empty_intersection\<close>
  states the same for every window, period and store.)
\<close>

theorem load_period_outside_window:
  "tf_empty (intersect (TimeFrame_new (Some 0) (Some 10)) (TimeFrame_new (Some 20) (Some 30)))
   \<and> load \<lparr>store = \<lparr>nodes = [(''/k'', \<lparr>col_names = [],
              table_rows = [(1, []), (2, []), (3, [])] :: unit row list\<rparr>)],
            is_open = True\<rparr>,
         window = TimeFrame_new (Some 0) (Some 10)\<rparr> ''/k'' None
         (Some [TimeFrame_new (Some 20) (Some 30), TimeFrame_new (Some 2) None]) 10 10
     = ([\<lparr>rows = [], look_ahead = [], timeframe = TimeFrame_default\<rparr>,
         \<lparr>rows = [(2, []), (3, [])], look_ahead = [],
          timeframe = TimeFrame_new (Some 2) (Some 3)\<rparr>], Exhausted)
   \<and> \<not> tf_empty TimeFrame_default"
  by code_simp

section \<open>Properties of \<open>Key\<close>\<close>

subsection \<open>Decimal numerals\<close>

lemma is_digit_digit_char: "d < 10 \<Longrightarrow> is_digit (digit_char d)"
  unfolding digit_char_def is_digit_def by (rule nth_mem) simp

lemma below_ten_cases:
  "(d::nat) < 10 \<Longrightarrow>
     d = 0 \<or> d = 1 \<or> d = 2 \<or> d = 3 \<or> d = 4 \<or> d = 5 \<or> d = 6 \<or> d = 7 \<or> d = 8 \<or> d = 9"
  by arith

lemma digit_val_digit_char: "d < 10 \<Longrightarrow> digit_val (digit_char d) = d"
  using below_ten_cases [of d] by (auto simp: digit_val_def digit_char_def)

lemma is_digit_chars:
  "is_digit c \<Longrightarrow>
     c \<noteq> slash \<and> c \<noteq> CHR ''-'' \<and> c \<noteq> CHR ''+'' \<and> c \<noteq> CHR ''b'' \<and> c \<noteq> CHR ''m'' \<and> \<not> is_space c"
  by (auto simp: is_digit_def is_space_def slash_def)

lemma str_nat_digits: "list_all is_digit (str_nat n) \<and> str_nat n \<noteq> []"
proof (induction n rule: str_nat.induct)
  case (1 n)
  show ?case
  proof (cases "n < 10")
    case True
    then have "str_nat n = [digit_char n]" by (simp add: str_nat.simps [of n])
    with True show ?thesis by (simp add: is_digit_digit_char)
  next
    case False
    then have e: "str_nat n = str_nat (n div 10) @ [digit_char (n mod 10)]"
      by (simp add: str_nat.simps [of n])
    have "is_digit (digit_char (n mod 10))" by (rule is_digit_digit_char) simp
    with "1.IH" False show ?thesis by (simp add: e)
  qed
qed

lemma str_nat_char: "c \<in> set (str_nat n) \<Longrightarrow> is_digit c"
  using str_nat_digits [of n] by (simp add: list_all_iff)

lemma nat_of_digits_snoc:
  "nat_of_digits (ds @ [c]) = 10 * nat_of_digits ds + digit_val c"
  by (simp add: nat_of_digits_def)

lemma nat_of_digits_str_nat: "nat_of_digits (str_nat n) = n"
proof (induction n rule: str_nat.induct)
  case (1 n)
  show ?case
  proof (cases "n < 10")
    case True
    then have "str_nat n = [digit_char n]" by (simp add: str_nat.simps [of n])
    with True show ?thesis by (simp add: nat_of_digits_def digit_val_digit_char)
  next
    case False
    then have e: "str_nat n = str_nat (n div 10) @ [digit_char (n mod 10)]"
      by (simp add: str_nat.simps [of n])
    have "digit_val (digit_char (n mod 10)) = n mod 10" by (rule digit_val_digit_char) simp
    with "1.IH" False show ?thesis by (simp add: e nat_of_digits_snoc)
  qed
qed

lemma digits_to_int_str_nat: "digits_to_int (str_nat n) = Some (int n)"
  using str_nat_digits [of n] by (simp add: digits_to_int_def nat_of_digits_str_nat)

lemma strip_space_str_nat: "strip_space (str_nat n) = str_nat n"
proof -
  have ne: "str_nat n \<noteq> []" using str_nat_digits [of n] by simp
  have all: "\<forall>c\<in>set (str_nat n). \<not> is_space c"
    using str_nat_char [of _ n] is_digit_chars by blast
  have "dropWhile is_space (str_nat n) = str_nat n"
    using ne all by (cases "str_nat n") auto
  moreover have "dropWhile is_space (rev (str_nat n)) = rev (str_nat n)"
    using ne all by (cases "rev (str_nat n)") auto
  ultimately show ?thesis by (simp add: strip_space_def)
qed

lemma py_int_str_nat: "py_int (str_nat n) = Some (int n)"
proof -
  obtain c cs where s: "str_nat n = c # cs"
    using str_nat_digits [of n] by (cases "str_nat n") auto
  then have "is_digit c" using str_nat_char [of c n] by simp
  then have "c \<noteq> CHR ''-''" "c \<noteq> CHR ''+''" using is_digit_chars by blast+
  moreover have "strip_space (str_nat n) = c # cs"
    using strip_space_str_nat [of n] s by simp
  moreover have "digits_to_int (c # cs) = Some (int n)"
    using digits_to_int_str_nat [of n] s by simp
  ultimately show ?thesis by (simp add: py_int_def)
qed

lemma str_int_nonneg: "0 \<le> i \<Longrightarrow> str_int i = str_nat (nat i)"
  by (simp add: str_int_def)

lemma str_int_chars:
  "str_int i \<noteq> [] \<and> slash \<notin> set (str_int i) \<and> last (str_int i) \<noteq> slash"
proof -
  have ne: "str_int i \<noteq> []" using str_nat_digits by (simp add: str_int_def)
  have "c \<noteq> slash" if "c \<in> set (str_int i)" for c
  proof (cases "c = CHR ''-''")
    case True
    then show ?thesis by (simp add: slash_def)
  next
    case False
    with that have "c \<in> set (str_nat (nat (- i))) \<or> c \<in> set (str_nat (nat i))"
      by (auto simp: str_int_def split: if_splits)
    then have "is_digit c" using str_nat_char by blast
    then show ?thesis using is_digit_chars by blast
  qed
  then have ns: "slash \<notin> set (str_int i)" by blast
  have "last (str_int i) \<in> set (str_int i)" using ne by simp
  with ns have "last (str_int i) \<noteq> slash" by metis
  with ne ns show ?thesis by simp
qed

subsection \<open>Splitting and stripping\<close>

lemma split_slash_no_slash: "slash \<notin> set a \<Longrightarrow> split_slash a = [a]"
  by (induction a) auto

lemma split_slash_append:
  "slash \<notin> set a \<Longrightarrow> split_slash (a @ slash # b) = a # split_slash b"
  by (induction a) auto

lemma strip_slash_leading:
  assumes "t \<noteq> []" "hd t \<noteq> slash" "last t \<noteq> slash"
  shows "strip_slash (slash # t) = t"
proof -
  have "dropWhile (\<lambda>c. c = slash) (slash # t) = t"
    using assms(1,2) by (cases t) auto
  moreover have "dropWhile (\<lambda>c. c = slash) (rev t) = rev t"
    using assms(1,3) by (cases "rev t") (auto simp: last_rev [symmetric] simp del: last_rev)
  ultimately show ?thesis by (simp add: strip_slash_def)
qed

lemma replace_empty_absent:
  "p \<noteq> [] \<Longrightarrow> hd p \<notin> set s \<Longrightarrow> replace_empty p s = s"
proof (induction s)
  case Nil
  then show ?case by (simp add: replace_empty.simps [of p "[]"])
next
  case (Cons c s)
  have "take (length p) (c # s) \<noteq> p"
  proof
    assume "take (length p) (c # s) = p"
    with Cons.prems(1) have "hd p = c" by (cases p) auto
    with Cons.prems(2) show False by simp
  qed
  with Cons show ?case by (simp add: replace_empty.simps [of p "c # s"])
qed

lemma replace_empty_prefix:
  "p \<noteq> [] \<Longrightarrow> hd p \<notin> set s \<Longrightarrow> replace_empty p (p @ s) = s"
  by (simp add: replace_empty.simps [of p "p @ s"] replace_empty_absent)

subsection \<open>Rendering and parsing keys\<close>

lemma rendered_key_split:
  "split_slash (strip_slash (''/building'' @ str_int b @ ''/elec/meter'' @ str_int m))
     = [''building'' @ str_int b, ''elec'', ''meter'' @ str_int m]"
proof -
  let ?t = "''building'' @ str_int b @ ''/elec/meter'' @ str_int m"
  have m: "str_int m \<noteq> []" "slash \<notin> set (str_int m)" "last (str_int m) \<noteq> slash"
    using str_int_chars [of m] by simp_all
  have b: "slash \<notin> set (str_int b)" using str_int_chars [of b] by simp
  have "last ?t = last (str_int m)" using m(1) by simp
  then have "strip_slash (slash # ?t) = ?t"
    using m(3) by (intro strip_slash_leading) (simp_all add: slash_def)
  then have s: "strip_slash (''/building'' @ str_int b @ ''/elec/meter'' @ str_int m) = ?t"
    by (simp add: slash_def)
  have 1: "split_slash ((''building'' @ str_int b) @ slash # (''elec/meter'' @ str_int m))
        = (''building'' @ str_int b) # split_slash (''elec/meter'' @ str_int m)"
    using b by (intro split_slash_append) (simp add: slash_def)
  have 2: "split_slash (''elec'' @ slash # (''meter'' @ str_int m))
        = ''elec'' # split_slash (''meter'' @ str_int m)"
    by (intro split_slash_append) (simp add: slash_def)
  have 3: "split_slash (''meter'' @ str_int m) = [''meter'' @ str_int m]"
    using m(2) by (intro split_slash_no_slash) (simp add: slash_def)
  have "split_slash ?t = [''building'' @ str_int b, ''elec'', ''meter'' @ str_int m]"
    using 1 2 3 by (simp add: slash_def)
  with s show ?thesis by simp
qed

lemma Key_parse_fields_utility:
  assumes "Key_parse_fields s = Inr k"
  shows "utility k =
     (if length (split_slash (strip_slash s)) > 1
      then Some (split_slash (strip_slash s) ! 1) else None)"
  using assms
  by (auto simp: Key_parse_fields_def Let_def split: if_splits option.splits)

lemma Key_init_Some:
  "Key_init (Some s) b m = Inr k \<Longrightarrow> Key_parse_fields s = Inr k \<and> Key_check k = Inr ()"
  by (auto simp: Key_init_def split: sum.splits)

lemma Key_check_ok:
  "Key_check k = Inr () \<Longrightarrow>
     (\<exists>b. building k = Some b \<and> 1 \<le> b) \<and> (\<forall>m. meter k = Some m \<longrightarrow> 1 \<le> m)"
  by (auto simp: Key_check_def split: option.splits if_splits)

lemma Key_repr_with_meter:
  assumes "Key_check k = Inr ()" "building k = Some b" "meter k = Some m"
  shows "Key_repr k = Inr (''/building'' @ str_int b @ ''/elec/meter'' @ str_int m)"
  using assms by (simp add: Key_repr_def)

lemma Key_init_of_rendered:
  assumes b: "1 \<le> b" and m: "1 \<le> m"
  shows "Key_init (Some (''/building'' @ str_int b @ ''/elec/meter'' @ str_int m)) x y
     = Inr \<lparr>building = Some b, meter = Some m, utility = Some ''elec''\<rparr>"
proof -
  have sb: "str_int b = str_nat (nat b)" and sm: "str_int m = str_nat (nat m)"
    using b m by (simp_all add: str_int_nonneg)
  have nb: "CHR ''b'' \<notin> set (str_int b)" and nm: "CHR ''m'' \<notin> set (str_int m)"
    using str_nat_char [of _ "nat b"] str_nat_char [of _ "nat m"] is_digit_chars sb sm
    by metis+
  have rb: "replace_empty ''building'' (''building'' @ str_int b) = str_int b"
    using nb by (intro replace_empty_prefix) simp_all
  have rm: "replace_empty ''meter'' (''meter'' @ str_int m) = str_int m"
    using nm by (intro replace_empty_prefix) simp_all
  have pb: "py_int (str_int b) = Some b" using py_int_str_nat [of "nat b"] b sb by simp
  have pm: "py_int (str_int m) = Some m" using py_int_str_nat [of "nat m"] m sm by simp
  have "Key_parse_fields (''/building'' @ str_int b @ ''/elec/meter'' @ str_int m)
     = Inr \<lparr>building = Some b, meter = Some m, utility = Some ''elec''\<rparr>"
    unfolding Key_parse_fields_def rendered_key_split
    using rb rm pb pm by (simp add: startswith_def)
  then show ?thesis using b m by (simp add: Key_init_def Key_check_def)
qed

text \<open>
  C10.  \<open>Key.__repr__\<close> writes the segment \<open>elec\<close> whenever a meter is set, whatever
  the utility of the key: a valid key with building \<open>b\<close> and meter \<open>m\<close> is rendered as
  \<open>/building<b>/elec/meter<m>\<close>, and parsing that string gives the key back with the utility
  \<open>elec\<close>.  So a string that parses to a key with a meter and a utility other than
  \<open>elec\<close> is not what rendering the key returns: the utility is rewritten to \<open>elec\<close>.
  The key parsed from \<open>building1/gas/meter2\<close> is rendered as \<open>/building1/elec/meter2\<close>.
\<close>

theorem Key_repr_always_elec:
  "(Key_check k = Inr () \<and> building k = Some b \<and> meter k = Some m \<longrightarrow>
      Key_repr k = Inr (''/building'' @ str_int b @ ''/elec/meter'' @ str_int m)
      \<and> Key_init (Some (''/building'' @ str_int b @ ''/elec/meter'' @ str_int m)) None None
          = Inr (k\<lparr>utility := Some ''elec''\<rparr>))
   \<and> (Key_init (Some s) None None = Inr k' \<and> meter k' \<noteq> None \<and> utility k' \<noteq> Some ''elec'' \<longrightarrow>
      Key_repr k' \<noteq> Inr s
      \<and> (\<exists>r. Key_repr k' = Inr r
             \<and> Key_init (Some r) None None = Inr (k'\<lparr>utility := Some ''elec''\<rparr>)))
   \<and> Key_init (Some ''building1/gas/meter2'') None None
       = Inr \<lparr>building = Some 1, meter = Some 2, utility = Some ''gas''\<rparr>
   \<and> Key_repr \<lparr>building = Some 1, meter = Some 2, utility = Some ''gas''\<rparr>
       = Inr ''/building1/elec/meter2''"
proof -
  have first: "Key_repr k = Inr (''/building'' @ str_int b @ ''/elec/meter'' @ str_int m)
      \<and> Key_init (Some (''/building'' @ str_int b @ ''/elec/meter'' @ str_int m)) None None
          = Inr (k\<lparr>utility := Some ''elec''\<rparr>)"
    if h: "Key_check k = Inr ()" "building k = Some b" "meter k = Some m" for k :: Key and b m
  proof -
    from Key_check_ok [OF h(1)] h(2,3) have "1 \<le> b" "1 \<le> m" by auto
    from Key_init_of_rendered [OF this, of None None] h(2,3)
    have "Key_init (Some (''/building'' @ str_int b @ ''/elec/meter'' @ str_int m)) None None
          = Inr (k\<lparr>utility := Some ''elec''\<rparr>)"
      by simp
    with Key_repr_with_meter [OF h] show ?thesis by simp
  qed
  have second: "Key_repr k' \<noteq> Inr s
      \<and> (\<exists>r. Key_repr k' = Inr r
             \<and> Key_init (Some r) None None = Inr (k'\<lparr>utility := Some ''elec''\<rparr>))"
    if h: "Key_init (Some s) None None = Inr k'" "meter k' \<noteq> None" "utility k' \<noteq> Some ''elec''"
  proof -
    from Key_init_Some [OF h(1)] have p: "Key_parse_fields s = Inr k'" and c: "Key_check k' = Inr ()"
      by simp_all
    from Key_check_ok [OF c] h(2) obtain b m where bm: "building k' = Some b" "meter k' = Some m"
      by auto
    let ?r = "''/building'' @ str_int b @ ''/elec/meter'' @ str_int m"
    from first [OF c bm]
    have r: "Key_repr k' = Inr ?r"
      and i: "Key_init (Some ?r) None None = Inr (k'\<lparr>utility := Some ''elec''\<rparr>)"
      by simp_all
    have "?r \<noteq> s"
    proof
      assume "?r = s"
      with i h(1) have "k'\<lparr>utility := Some ''elec''\<rparr> = k'" by simp
      then have "utility (k'\<lparr>utility := Some ''elec''\<rparr>) = utility k'" by simp
      with h(3) show False by simp
    qed
    with r i show ?thesis by auto
  qed
  have third: "Key_init (Some ''building1/gas/meter2'') None None
       = Inr \<lparr>building = Some 1, meter = Some 2, utility = Some ''gas''\<rparr>"
    by code_simp
  have fourth: "Key_repr \<lparr>building = Some 1, meter = Some 2, utility = Some ''gas''\<rparr>
       = Inr ''/building1/elec/meter2''"
    by code_simp
  from first second third fourth show ?thesis by blast
qed

theorem Key_repr_always_elec_witness:
  "Key_init (Some ''building3/water/meter12'') None None
     = Inr \<lparr>building = Some 3, meter = Some 12, utility = Some ''water''\<rparr>
   \<and> Key_check \<lparr>building = Some 3, meter = Some 12, utility = Some ''water''\<rparr> = Inr ()
   \<and> Key_repr \<lparr>building = Some 3, meter = Some 12, utility = Some ''water''\<rparr>
       = Inr ''/building3/elec/meter12''
   \<and> Key_init (Some ''/building3/elec/meter12'') None None
       = Inr \<lparr>building = Some 3, meter = Some 12, utility = Some ''elec''\<rparr>"
proof -
  let ?k = "\<lparr>building = Some 3, meter = Some 12, utility = Some ''water''\<rparr>"
  have i: "Key_init (Some ''building3/water/meter12'') None None = Inr ?k" by code_simp
  have c: "Key_check ?k = Inr ()" by (simp add: Key_check_def)
  have s3: "str_int 3 = ''3''" and s12: "str_int 12 = ''12''" by code_simp+
  from Key_repr_always_elec [of ?k 3 12 "''building3/water/meter12''" ?k] i c
  have "Key_repr ?k = Inr (''/building'' @ str_int 3 @ ''/elec/meter'' @ str_int 12)"
    and "Key_init (Some (''/building'' @ str_int 3 @ ''/elec/meter'' @ str_int 12)) None None
          = Inr (?k\<lparr>utility := Some ''elec''\<rparr>)"
    by simp_all
  with i c s3 s12 show ?thesis by simp
qed

subsection \<open>The errors of the key parser\<close>

lemma Key_init_first_element:
  "\<not> startswith (split_slash (strip_slash s) ! 0) ''building'' \<Longrightarrow>
     Key_init (Some s) b m = Inl (AssertionError First_element)"
  by (simp add: Key_init_def Key_parse_fields_def)

lemma Key_init_building_int:
  "startswith (split_slash (strip_slash s) ! 0) ''building'' \<Longrightarrow>
   py_int (replace_empty ''building'' (split_slash (strip_slash s) ! 0)) = None \<Longrightarrow>
     Key_init (Some s) b m = Inl (ValueError Building_int)"
  by (simp add: Key_init_def Key_parse_fields_def)

lemma Key_init_meter_int:
  "startswith (split_slash (strip_slash s) ! 0) ''building'' \<Longrightarrow>
   py_int (replace_empty ''building'' (split_slash (strip_slash s) ! 0)) = Some b' \<Longrightarrow>
   length (split_slash (strip_slash s)) = 3 \<Longrightarrow>
   startswith (split_slash (strip_slash s) ! 2) ''meter'' \<Longrightarrow>
   py_int (replace_empty ''meter'' (last (split_slash (strip_slash s)))) = None \<Longrightarrow>
     Key_init (Some s) b m = Inl (ValueError Meter_int)"
  by (simp add: Key_init_def Key_parse_fields_def)

lemma Key_init_building_below_1:
  "Key_parse_fields s = Inr k \<Longrightarrow> building k = Some b' \<Longrightarrow> b' < 1 \<Longrightarrow>
     Key_init (Some s) b m = Inl (AssertionError Check_building_ge_1)"
  by (simp add: Key_init_def Key_check_def)

lemma Key_init_meter_below_1:
  "Key_parse_fields s = Inr k \<Longrightarrow> building k = Some b' \<Longrightarrow> 1 \<le> b' \<Longrightarrow>
   meter k = Some m' \<Longrightarrow> m' < 1 \<Longrightarrow>
     Key_init (Some s) b m = Inl (AssertionError Check_meter_ge_1)"
  by (simp add: Key_init_def Key_check_def)

lemma Key_init_examples:
  "Key_init (Some ''bldg1'') None None = Inl (AssertionError First_element)"
  "Key_init (Some ''building0/elec/meter1'') None None = Inl (AssertionError Check_building_ge_1)"
  "Key_init (Some ''buildingx'') None None = Inl (ValueError Building_int)"
  "Key_init (Some ''building1/elec/meterx'') None None = Inl (ValueError Meter_int)"
  "Key_init (Some ''building1/elec/meter0'') None None = Inl (AssertionError Check_meter_ge_1)"
  by code_simp+

text \<open>
  Where the text after the prefix holds no further \<open>b\<close>, \<open>replace\<close> leaves exactly that
  text, so that the building number is read from the suffix.
\<close>

lemma replace_empty_suffix:
  assumes "startswith seg p" and "p \<noteq> []" and "hd p \<notin> set (drop (length p) seg)"
  shows "replace_empty p seg = drop (length p) seg"
proof -
  have "seg = p @ drop (length p) seg"
    using assms(1) append_take_drop_id [of "length p" seg] by (simp only: startswith_def)
  moreover have "replace_empty p (p @ drop (length p) seg) = drop (length p) seg"
    using assms(2,3) by (rule replace_empty_prefix)
  ultimately show ?thesis by simp
qed

text \<open>
  C9.  \<open>Key('buildingbuilding1')\<close>: the first segment starts with \<open>building\<close> and the
  text after that prefix, \<open>building1\<close>, is not an integer, yet no error is raised: the
  key is accepted with building 1, because \<open>replace\<close> deletes every occurrence of
  \<open>building\<close>, not only the prefix.
\<close>

theorem Key_init_accepts_repeated_building:
  "startswith ''buildingbuilding1'' ''building''
   \<and> py_int (drop (length ''building'') ''buildingbuilding1'') = None
   \<and> Key_init (Some ''buildingbuilding1'') None None
       = Inr \<lparr>building = Some 1, meter = None, utility = None\<rparr>"
  by code_simp

section \<open>Properties of the handle and the memory guard\<close>

text \<open>
  C5.  \<open>HDFDataStore.open\<close> closes the handle of the store: it has the effect of
  \<open>HDFDataStore.close\<close> on every data store, and the handle is released afterwards,
  whether it was open or not.
\<close>

theorem open_closes_the_store:
  "HDFDataStore_open ds = HDFDataStore_close ds
   \<and> store (HDFDataStore_open ds) = HDFStore_close (store ds)
   \<and> \<not> is_open (store (HDFDataStore_open ds))
   \<and> window (HDFDataStore_open ds) = window ds"
  by (simp add: HDFDataStore_open_def HDFDataStore_close_def HDFStore_close_def)

theorem open_closes_the_store_witness:
  "HDFDataStore_open \<lparr>store = \<lparr>nodes = ([] :: (string \<times> unit node) list), is_open = True\<rparr>,
                      window = TimeFrame_default\<rparr>
     = \<lparr>store = \<lparr>nodes = [], is_open = False\<rparr>, window = TimeFrame_default\<rparr>
   \<and> \<not> is_open (store (HDFDataStore_open
          \<lparr>store = \<lparr>nodes = ([] :: (string \<times> unit node) list), is_open = False\<rparr>,
           window = TimeFrame_default\<rparr>))"
  using open_closes_the_store
    [of "\<lparr>store = \<lparr>nodes = ([] :: (string \<times> unit node) list), is_open = True\<rparr>,
          window = TimeFrame_default\<rparr>"]
    open_closes_the_store
    [of "\<lparr>store = \<lparr>nodes = ([] :: (string \<times> unit node) list), is_open = False\<rparr>,
          window = TimeFrame_default\<rparr>"]
  by (simp add: HDFDataStore_close_def HDFStore_close_def)

text \<open>
  C7.  With a column list and without the paranoid checks, the estimate is
  \<open>nrows * len(cols) * 4 + nrows * 8\<close> bytes, and \<open>nrows * 8\<close> bytes when the column list
  is exactly \<open>['index']\<close>; 1000 rows of two columns take 16000 bytes, 1000 rows of the
  index alone 8000 bytes.
\<close>

theorem estimate_memory_requirement_bytes:
  "estimate_memory_requirement ds key nrows (Some cols) False =
     Inr (if cols = [''index''] then nrows * 8
          else nrows * int (length cols) * 4 + nrows * 8)
   \<and> estimate_memory_requirement ds key 1000 (Some [''a'', ''b'']) False = Inr 16000
   \<and> estimate_memory_requirement ds key 1000 (Some [''index'']) False = Inr 8000"
  by (simp add: estimate_memory_requirement_def)

theorem estimate_memory_requirement_bytes_witness:
  "estimate_memory_requirement
     \<lparr>store = \<lparr>nodes = ([] :: (string \<times> unit node) list), is_open = True\<rparr>,
      window = TimeFrame_default\<rparr> ''/building1/elec/meter1'' 250 (Some [''a'', ''b'', ''c'']) False
     = Inr 5000"
  using estimate_memory_requirement_bytes
    [of "\<lparr>store = \<lparr>nodes = ([] :: (string \<times> unit node) list), is_open = True\<rparr>,
          window = TimeFrame_default\<rparr>" "''/building1/elec/meter1''" 250 "[''a'', ''b'', ''c'']"]
  by simp

text \<open>
  An error of the estimate (a key that is not in the store, when the columns are to be
  read from the table) leaves \<open>_check_data_will_fit_in_memory\<close> as it is.
\<close>

lemma check_data_will_fit_in_memory_propagates:
  "estimate_memory_requirement ds key nrows cols False = Inl e \<Longrightarrow>
     check_data_will_fit_in_memory ds key nrows cols = Inl e"
  by (simp add: check_data_will_fit_in_memory_def)

text \<open>
  C6.  When the estimate is \<open>m\<close> bytes, \<open>_check_data_will_fit_in_memory\<close> raises
  \<open>MemoryError\<close>, reporting \<open>m / 10^6\<close> megabytes, exactly when \<open>m\<close> exceeds the allowance
  of \<open>10^9\<close> bytes, and returns normally otherwise; an estimate equal to the allowance
  passes.
\<close>

theorem check_data_will_fit_in_memory_guard:
  assumes "estimate_memory_requirement ds key nrows cols False = Inr m"
  shows "MAX_MEM_ALLOWANCE_IN_BYTES = 10 ^ 9
    \<and> (m > MAX_MEM_ALLOWANCE_IN_BYTES \<longrightarrow>
         check_data_will_fit_in_memory ds key nrows cols = Inl (MemoryError (of_int m / 10 ^ 6)))
    \<and> (m \<le> MAX_MEM_ALLOWANCE_IN_BYTES \<longrightarrow>
         check_data_will_fit_in_memory ds key nrows cols = Inr ())
    \<and> (\<exists>e. check_data_will_fit_in_memory ds key nrows cols = Inl e)
         = (m > MAX_MEM_ALLOWANCE_IN_BYTES)
    \<and> (check_data_will_fit_in_memory ds key nrows cols = Inr ()) = (m \<le> MAX_MEM_ALLOWANCE_IN_BYTES)"
  using assms
  by (simp add: check_data_will_fit_in_memory_def MAX_MEM_ALLOWANCE_IN_BYTES_def)

theorem check_data_will_fit_in_memory_guard_witness:
  "estimate_memory_requirement
     \<lparr>store = \<lparr>nodes = ([] :: (string \<times> unit node) list), is_open = True\<rparr>,
      window = TimeFrame_default\<rparr> ''/k'' 125000000 (Some [''index'']) False = Inr 1000000000
   \<and> check_data_will_fit_in_memory
     \<lparr>store = \<lparr>nodes = ([] :: (string \<times> unit node) list), is_open = True\<rparr>,
      window = TimeFrame_default\<rparr> ''/k'' 125000000 (Some [''index'']) = Inr ()
   \<and> estimate_memory_requirement
     \<lparr>store = \<lparr>nodes = ([] :: (string \<times> unit node) list), is_open = True\<rparr>,
      window = TimeFrame_default\<rparr> ''/k'' 125000001 (Some [''index'']) False = Inr 1000000008
   \<and> check_data_will_fit_in_memory
     \<lparr>store = \<lparr>nodes = ([] :: (string \<times> unit node) list), is_open = True\<rparr>,
      window = TimeFrame_default\<rparr> ''/k'' 125000001 (Some [''index''])
       = Inl (MemoryError (1000000008 / 10 ^ 6))"
proof -
  let ?ds = "\<lparr>store = \<lparr>nodes = ([] :: (string \<times> unit node) list), is_open = True\<rparr>,
      window = TimeFrame_default\<rparr>"
  have a: "estimate_memory_requirement ?ds ''/k'' 125000000 (Some [''index'']) False
             = Inr 1000000000"
    by (simp add: estimate_memory_requirement_def)
  have b: "estimate_memory_requirement ?ds ''/k'' 125000001 (Some [''index'']) False
             = Inr 1000000008"
    by (simp add: estimate_memory_requirement_def)
  have "check_data_will_fit_in_memory ?ds ''/k'' 125000000 (Some [''index'']) = Inr ()"
    using check_data_will_fit_in_memory_guard [OF a] by simp
  moreover have "check_data_will_fit_in_memory ?ds ''/k'' 125000001 (Some [''index''])
       = Inl (MemoryError (1000000008 / 10 ^ 6))"
    using check_data_will_fit_in_memory_guard [OF b] by simp
  ultimately show ?thesis using a b by simp
qed

text \<open>
  Without a column list the estimate is made for the columns of the table, and fails with
  the error of \<open>_column_names\<close> when the key is not in the store.
\<close>

lemma estimate_memory_requirement_table_columns:
  "estimate_memory_requirement ds key nrows None False =
     (case column_names ds key of
        Inl e \<Rightarrow> Inl e
      | Inr names \<Rightarrow>
          Inr (if names = [''index''] then nrows * 8
               else nrows * int (length names) * 4 + nrows * 8))"
  by (simp add: estimate_memory_requirement_def split: sum.splits)

end
